theory Spec2Isabelle
  imports
    Main
    "HOL-Library.Char_ord"
    "HOL-Library.List_Lexorder"
    "HOL-Library.Product_Lexorder"
    "HOL-Library.Multiset"
    "HOL-Library.Sublist"
begin

section \<open>Strings, lines and text files\<close>

text \<open>
  Python strings are modelled as \<^typ>\<open>string\<close>. The order on strings is the
  lexicographic order of the character codes, which is what Python's \<^verbatim>\<open>sorted\<close>
  uses on \<^verbatim>\<open>str\<close>; pairs are compared component by component, first component
  first, as Python compares tuples.
\<close>

definition LF :: char where
  "LF = CHR 0x0A"

definition CR :: char where
  "CR = CHR 0x0D"

text \<open>\<^verbatim>\<open>s.startswith(p)\<close>.\<close>

definition starts_with :: "string \<Rightarrow> string \<Rightarrow> bool" where
  "starts_with p s = (take (length p) s = p)"

text \<open>\<^verbatim>\<open>sep.join(xs)\<close>.\<close>

fun join :: "string \<Rightarrow> string list \<Rightarrow> string" where
  "join sep [] = []"
| "join sep [x] = x"
| "join sep (x # y # ys) = x @ sep @ join sep (y # ys)"

text \<open>
  \<^verbatim>\<open>s.replace(old, new, 1)\<close> for a non-empty \<^verbatim>\<open>old\<close>: the leftmost occurrence
  of \<^verbatim>\<open>old\<close> is replaced, wherever it is; a string without an occurrence is returned
  as it is.
\<close>

fun replace1 :: "string \<Rightarrow> string \<Rightarrow> string \<Rightarrow> string" where
  "replace1 old new [] = []"
| "replace1 old new (c # cs) =
     (if starts_with old (c # cs) then new @ drop (length old) (c # cs)
      else c # replace1 old new cs)"

text \<open>
  A file opened with \<^verbatim>\<open>open(path, 'r')\<close> is read in universal-newlines mode:
  \<^verbatim>\<open>\r\n\<close> and a lone \<^verbatim>\<open>\r\<close> both arrive as \<^verbatim>\<open>\n\<close>.
\<close>

fun universal_newlines :: "string \<Rightarrow> string" where
  "universal_newlines [] = []"
| "universal_newlines [c] = (if c = CR then [LF] else [c])"
| "universal_newlines (c # d # cs) =
     (if c = CR then
        (if d = LF then LF # universal_newlines cs else LF # universal_newlines (d # cs))
      else c # universal_newlines (d # cs))"

text \<open>
  \<^verbatim>\<open>for line in f\<close>: every line keeps its terminating \<^verbatim>\<open>\n\<close>; a last line
  without terminator is yielded as it is; \<open>cur\<close> is the line read so far.
\<close>

fun split_lines :: "string \<Rightarrow> string \<Rightarrow> string list" where
  "split_lines cur [] = (if cur = [] then [] else [cur])"
| "split_lines cur (c # cs) =
     (if c = LF then (cur @ [LF]) # split_lines [] cs else split_lines (cur @ [c]) cs)"

definition file_lines :: "string \<Rightarrow> string list" where
  "file_lines content = split_lines [] (universal_newlines content)"

section \<open>The two line grammars\<close>

text \<open>
  Both regular expressions are of the shape \<^verbatim>\<open>(.*)LITERAL\<close>. The group \<^verbatim>\<open>.*\<close> is
  greedy: the matcher first tries the longest text and gives back one character at a time
  until the literal follows. \<open>greedy_split pat s\<close> returns the text of the group and what
  follows the literal, for the longest group for which the literal follows.
\<close>

fun greedy_split :: "string \<Rightarrow> string \<Rightarrow> (string \<times> string) option" where
  "greedy_split pat [] = (if pat = [] then Some ([], []) else None)"
| "greedy_split pat (c # cs) =
     (case greedy_split pat cs of
        Some (p, r) \<Rightarrow> Some (c # p, r)
      | None \<Rightarrow>
          if starts_with pat (c # cs) then Some ([], drop (length pat) (c # cs)) else None)"

text \<open>
  \<^verbatim>\<open>.\<close> matches every character but \<^verbatim>\<open>\n\<close>, and both expressions are matched at
  the start of the line, so a match lies within the text before the first \<^verbatim>\<open>\n\<close>.
\<close>

definition line_body :: "string \<Rightarrow> string" where
  "line_body line = takeWhile (\<lambda>c. c \<noteq> LF) line"

text \<open>
  \<^verbatim>\<open>is_not_set = re.compile(r'^# (?P<symbol>.*) is not set')\<close>, used with
  \<^verbatim>\<open>match\<close>: the result is the group \<^verbatim>\<open>symbol\<close>. Nothing anchors the end.
\<close>

definition is_not_set :: "string \<Rightarrow> string option" where
  "is_not_set line =
     (let body = line_body line in
      if starts_with ''# '' body
      then map_option fst (greedy_split '' is not set'' (drop 2 body))
      else None)"

text \<open>
  \<^verbatim>\<open>is_config = re.compile(r'(?P<symbol>.*)=(?P<value>.*)')\<close>, used with
  \<^verbatim>\<open>match\<close>: the result is the pair of the groups \<^verbatim>\<open>symbol\<close> and \<^verbatim>\<open>value\<close>.
  The second group takes the rest of the line up to the \<^verbatim>\<open>\n\<close>.
\<close>

definition is_config :: "string \<Rightarrow> (string \<times> string) option" where
  "is_config line = greedy_split ''='' (line_body line)"

section \<open>The configuration set\<close>

text \<open>
  \<^verbatim>\<open>self.opts\<close> is a Python dict: an association list in insertion order whose keys
  are distinct. Assigning to a key that is present replaces its value in place; a new key
  goes to the end.
\<close>

type_synonym opts = "(string \<times> string) list"

fun dict_set :: "opts \<Rightarrow> string \<Rightarrow> string \<Rightarrow> opts" where
  "dict_set [] k v = [(k, v)]"
| "dict_set ((k', v') # d) k v =
     (if k' = k then (k', v) # d else (k', v') # dict_set d k v)"

record defconfig =
  path :: "string option"
  opts :: opts

text \<open>\<^verbatim>\<open>Defconfig(path)\<close>.\<close>

definition Defconfig :: "string option \<Rightarrow> defconfig" where
  "Defconfig p = \<lparr>path = p, opts = []\<rparr>"

text \<open>
  The file system: a path names a regular file, a directory, or nothing. A regular file
  is given by what reading it in text mode yields: \<open>File content\<close> is a file whose bytes
  are valid in the encoding that \<^verbatim>\<open>open(path, 'r')\<close> uses and decode to the text
  \<open>content\<close>; \<open>Undecodable\<close> is a readable file whose bytes are not valid in that
  encoding (with UTF-8, a file that holds the byte \<^verbatim>\<open>0xFF\<close>), on which the iteration
  over the lines raises \<^verbatim>\<open>UnicodeDecodeError\<close>.
  \<^verbatim>\<open>os.path.exists\<close> holds for files and directories; \<^verbatim>\<open>open\<close> raises on a
  directory. Writing assumes a POSIX system (a \<^verbatim>\<open>\n\<close> is written as it is) and that
  the directory of the path exists and is writable.
\<close>

datatype fs_node = File string | Undecodable | Dir

type_synonym filesystem = "string \<Rightarrow> fs_node option"

datatype py_error = TypeError | IsADirectoryError | UnicodeDecodeError | IndexError

text \<open>What \<^verbatim>\<open>load\<close> returns: \<^verbatim>\<open>-1\<close>, or \<^verbatim>\<open>None\<close> at the end of the body.\<close>

datatype load_result = RetMinusOne | RetNone

text \<open>\<^verbatim>\<open>if path == None: path = self.path\<close>.\<close>

definition resolve_path :: "defconfig \<Rightarrow> string option \<Rightarrow> string option" where
  "resolve_path self p = (case p of None \<Rightarrow> path self | Some q \<Rightarrow> Some q)"

text \<open>\<^verbatim>\<open>open(path, 'w')\<close> followed by writing \<open>text\<close>.\<close>

definition write_file :: "filesystem \<Rightarrow> string option \<Rightarrow> string \<Rightarrow> py_error + filesystem" where
  "write_file fs p text =
     (case p of
        None \<Rightarrow> Inl TypeError
      | Some q \<Rightarrow>
          (case fs q of
             Some Dir \<Rightarrow> Inl IsADirectoryError
           | _ \<Rightarrow> Inr (fs(q \<mapsto> File text))))"

subsection \<open>load\<close>

text \<open>
  The mapping after one iteration of the loop over the lines of the file, when no call
  of the iteration raises.
\<close>

definition load_line :: "opts \<Rightarrow> string \<Rightarrow> opts" where
  "load_line d line =
     (case is_not_set line of
        Some s \<Rightarrow> dict_set d (replace1 ''CONFIG_'' '''' s) ''n''
      | None \<Rightarrow>
          (case is_config line of
             Some (s, v) \<Rightarrow> dict_set d (replace1 ''CONFIG_'' '''' s) v
           | None \<Rightarrow> d))"

fun load_lines :: "opts \<Rightarrow> string list \<Rightarrow> opts" where
  "load_lines d [] = d"
| "load_lines d (line # ls) = load_lines (load_line d line) ls"

text \<open>
  The loop as it is executed, call by call. \<^verbatim>\<open>pattern.match(line)\<close> returns
  \<^verbatim>\<open>None\<close> or a match object, which is given here by its named groups and their
  texts; \<^verbatim>\<open>m.group(name)\<close> raises \<^verbatim>\<open>IndexError\<close> when the pattern has no group of
  that name. \<^verbatim>\<open>str.replace\<close>, the assignment to \<^verbatim>\<open>self.opts[sym]\<close> and
  \<^verbatim>\<open>logging.debug\<close> of the stripped line raise nothing.
\<close>

type_synonym re_match = "(string \<times> string) list"

definition is_not_set_match :: "string \<Rightarrow> re_match option" where
  "is_not_set_match line = map_option (\<lambda>s. [(''symbol'', s)]) (is_not_set line)"

definition is_config_match :: "string \<Rightarrow> re_match option" where
  "is_config_match line =
     map_option (\<lambda>(s, v). [(''symbol'', s), (''value'', v)]) (is_config line)"

definition match_group :: "re_match \<Rightarrow> string \<Rightarrow> py_error + string" where
  "match_group m name = (case map_of m name of None \<Rightarrow> Inl IndexError | Some t \<Rightarrow> Inr t)"

definition run_line :: "opts \<Rightarrow> string \<Rightarrow> py_error + opts" where
  "run_line d line =
     (case is_not_set_match line of
        Some m \<Rightarrow>
          (case match_group m ''symbol'' of
             Inl e \<Rightarrow> Inl e
           | Inr s \<Rightarrow> Inr (dict_set d (replace1 ''CONFIG_'' '''' s) ''n''))
      | None \<Rightarrow>
          (case is_config_match line of
             Some m \<Rightarrow>
               (case match_group m ''symbol'' of
                  Inl e \<Rightarrow> Inl e
                | Inr s \<Rightarrow>
                    (case match_group m ''value'' of
                       Inl e \<Rightarrow> Inl e
                     | Inr v \<Rightarrow> Inr (dict_set d (replace1 ''CONFIG_'' '''' s) v)))
           | None \<Rightarrow> Inr d))"

fun run_lines :: "opts \<Rightarrow> string list \<Rightarrow> py_error + opts" where
  "run_lines d [] = Inr d"
| "run_lines d (line # ls) =
     (case run_line d line of Inl e \<Rightarrow> Inl e | Inr d' \<Rightarrow> run_lines d' ls)"

definition load :: "defconfig \<Rightarrow> string option \<Rightarrow> filesystem \<Rightarrow> py_error + (load_result \<times> defconfig)" where
  "load self p fs =
     (case resolve_path self p of
        None \<Rightarrow> Inr (RetMinusOne, self)
      | Some q \<Rightarrow>
          (case fs q of
             None \<Rightarrow> Inr (RetMinusOne, self)
           | Some Dir \<Rightarrow> Inl IsADirectoryError
           | Some Undecodable \<Rightarrow> Inl UnicodeDecodeError
           | Some (File content) \<Rightarrow>
               (case run_lines (opts self) (file_lines content) of
                  Inl e \<Rightarrow> Inl e
                | Inr d \<Rightarrow> Inr (RetNone, self\<lparr>opts := d\<rparr>))))"

subsection \<open>save\<close>

definition DEFCONFIG_HEADER :: string where
  \<open>DEFCONFIG_HEADER =
     ''#'' @ [LF] @
     ''# This file is autogenerated: PLEASE DO NOT EDIT IT.'' @ [LF] @
     ''#'' @ [LF] @
     ''# You can use '' @ [CHR 0x22] @ ''make menuconfig'' @ [CHR 0x22] @
       '' to make any modifications to the installed .config file.'' @ [LF] @
     ''# You can then do '' @ [CHR 0x22] @ ''make savedefconfig'' @ [CHR 0x22] @
       '' to generate a new defconfig file that includes your'' @ [LF] @
     ''# modifications.'' @ [LF] @
     ''#''\<close>

text \<open>The loop that builds \<^verbatim>\<open>config\<close>, one formatted line for each item.\<close>

fun save_config :: "string list \<Rightarrow> (string \<times> string) list \<Rightarrow> string list" where
  "save_config config [] = config"
| "save_config config ((symbol, val) # items) =
     (if val = ''n''
      then save_config (config @ [''# CONFIG_'' @ symbol @ '' is not set'']) items
      else save_config (config @ [''CONFIG_'' @ symbol @ ''='' @ val]) items)"

text \<open>The two \<^verbatim>\<open>print\<close> calls; each ends its text with \<^verbatim>\<open>\n\<close>.\<close>

definition save_text :: "opts \<Rightarrow> string" where
  "save_text d =
     DEFCONFIG_HEADER @ [LF] @ join [LF] (sort (save_config [] (sort d))) @ [LF]"

definition save :: "defconfig \<Rightarrow> string option \<Rightarrow> filesystem \<Rightarrow> py_error + filesystem" where
  "save self p fs = write_file fs (resolve_path self p) (save_text (opts self))"

subsection \<open>save_diff\<close>

text \<open>The first loop, over the items of \<^verbatim>\<open>target\<close>.\<close>

fun diff_minus :: "opts \<Rightarrow> string list \<Rightarrow> (string \<times> string) list \<Rightarrow> string list" where
  "diff_minus self_opts minus_list [] = minus_list"
| "diff_minus self_opts minus_list ((symbol, val) # items) =
     (if map_of self_opts symbol = None
      then diff_minus self_opts (minus_list @ [''-'' @ symbol @ ''='' @ val]) items
      else diff_minus self_opts minus_list items)"

text \<open>
  The second loop, over the items of \<^verbatim>\<open>self\<close>; the state is the pair of the lists
  \<^verbatim>\<open>plus\<close> and \<^verbatim>\<open>changes\<close>. \<^verbatim>\<open>target.opts[sym]\<close> is read only when the key is
  present.
\<close>

fun diff_plus_changes ::
  "opts \<Rightarrow> string list \<times> string list \<Rightarrow> (string \<times> string) list \<Rightarrow> string list \<times> string list" where
  "diff_plus_changes target_opts (plus_list, changes) [] = (plus_list, changes)"
| "diff_plus_changes target_opts (plus_list, changes) ((symbol, val) # items) =
     (case map_of target_opts symbol of
        None \<Rightarrow> diff_plus_changes target_opts (plus_list @ [''+'' @ symbol @ ''='' @ val], changes) items
      | Some tv \<Rightarrow>
          if tv \<noteq> val
          then diff_plus_changes target_opts
                 (plus_list, changes @ ['' '' @ symbol @ ''='' @ tv @ ''->'' @ val]) items
          else diff_plus_changes target_opts (plus_list, changes) items)"

definition diff_out :: "opts \<Rightarrow> opts \<Rightarrow> string list" where
  "diff_out self_opts target_opts =
     (let minus_list = diff_minus self_opts [] target_opts;
          (plus_list, changes) = diff_plus_changes target_opts ([], []) self_opts
      in sort minus_list @ sort changes @ sort plus_list)"

definition save_diff :: "defconfig \<Rightarrow> defconfig \<Rightarrow> string option \<Rightarrow> filesystem \<Rightarrow> py_error + filesystem" where
  "save_diff self target p fs =
     write_file fs (resolve_path self p) (join [LF] (diff_out (opts self) (opts target)) @ [LF])"

section \<open>The specification's reading of the two line grammars\<close>

text \<open>
  The specification describes the value of an assignment line as everything after the
  first \<^verbatim>\<open>=\<close>, and a disabled-option line as a line of the exact form
  \<^verbatim>\<open># SYMBOL is not set\<close> with nothing after it. The two definitions below follow
  these words; they are compared with \<open>is_config\<close> and \<open>is_not_set\<close>.
\<close>

definition spec_value_after_first_eq :: "string \<Rightarrow> string" where
  "spec_value_after_first_eq line = drop 1 (dropWhile (\<lambda>c. c \<noteq> CHR ''='') (line_body line))"

definition spec_exact_not_set_form :: "string \<Rightarrow> bool" where
  "spec_exact_not_set_form line =
     (starts_with ''# '' (line_body line) \<and> suffix '' is not set'' (drop 2 (line_body line)))"

section \<open>The lines of a saved file\<close>

text \<open>The lines of \<^verbatim>\<open>DEFCONFIG_HEADER\<close>, one by one.\<close>

definition header_lines :: "string list" where
  \<open>header_lines =
     [''#'',
      ''# This file is autogenerated: PLEASE DO NOT EDIT IT.'',
      ''#'',
      ''# You can use '' @ [CHR 0x22] @ ''make menuconfig'' @ [CHR 0x22] @
        '' to make any modifications to the installed .config file.'',
      ''# You can then do '' @ [CHR 0x22] @ ''make savedefconfig'' @ [CHR 0x22] @
        '' to generate a new defconfig file that includes your'',
      ''# modifications.'',
      ''#'']\<close>

text \<open>
  The line that the loop of \<^verbatim>\<open>save\<close> formats for one item of the mapping.
\<close>

definition entry_line :: "string \<times> string \<Rightarrow> string" where
  "entry_line item =
     (if snd item = ''n'' then ''# CONFIG_'' @ fst item @ '' is not set''
      else ''CONFIG_'' @ fst item @ ''='' @ snd item)"

text \<open>
  Conditions on a mapping under which the file that \<^verbatim>\<open>save\<close> writes is read back
  line by line as it was written: no symbol and no value contains a line break
  (\<^verbatim>\<open>\n\<close> or \<^verbatim>\<open>\r\<close>), the symbols are distinct as the keys of a dict are, and, for
  \<open>roundtrip_safe\<close>, no value contains \<^verbatim>\<open>=\<close>.
\<close>

definition plain_text :: "string \<Rightarrow> bool" where
  "plain_text s = (LF \<notin> set s \<and> CR \<notin> set s)"

definition plain_opts :: "opts \<Rightarrow> bool" where
  "plain_opts d = list_all (\<lambda>(s, v). plain_text s \<and> plain_text v) d"

definition roundtrip_safe :: "opts \<Rightarrow> bool" where
  "roundtrip_safe d =
     (distinct (map fst d) \<and> plain_opts d \<and> list_all (\<lambda>(s, v). CHR ''='' \<notin> set v) d)"

section \<open>Basic facts\<close>

lemma map_of_dict_set: "map_of (dict_set d k v) = (map_of d)(k \<mapsto> v)"
  by (induction d k v rule: dict_set.induct) (auto simp: fun_eq_iff)

lemma keys_dict_set: "fst ` set (dict_set d k v) = insert k (fst ` set d)"
  by (induction d k v rule: dict_set.induct) auto

lemma distinct_dict_set: "distinct (map fst d) \<Longrightarrow> distinct (map fst (dict_set d k v))"
proof (induction d k v rule: dict_set.induct)
  case (1 k v)
  then show ?case by simp
next
  case (2 k' v' d k v)
  then show ?case
    by (auto simp: keys_dict_set)
qed

lemma run_line_eq: "run_line d line = Inr (load_line d line)"
  by (auto simp: run_line_def load_line_def is_not_set_match_def is_config_match_def
      match_group_def split: option.splits)

lemma run_lines_eq: "run_lines d ls = Inr (load_lines d ls)"
  by (induction ls arbitrary: d) (simp_all add: run_line_eq)

lemma load_file:
  "resolve_path self p = Some q \<Longrightarrow> fs q = Some (File content) \<Longrightarrow>
   load self p fs = Inr (RetNone, self\<lparr>opts := load_lines (opts self) (file_lines content)\<rparr>)"
  by (simp add: load_def run_lines_eq)

lemma starts_with_append: "starts_with p (p @ r)"
  by (simp add: starts_with_def)

lemma starts_withD: "starts_with p s \<Longrightarrow> s = p @ drop (length p) s"
  by (metis append_take_drop_id starts_with_def)

lemma greedy_split_sound:
  "greedy_split pat s = Some (p, r) \<Longrightarrow> s = p @ pat @ r"
proof (induction s arbitrary: p r)
  case Nil
  then show ?case by (simp split: if_splits)
next
  case (Cons c cs)
  show ?case
  proof (cases "greedy_split pat cs")
    case None
    with Cons.prems have sw: "starts_with pat (c # cs)"
      and p: "p = []" and r: "r = drop (length pat) (c # cs)"
      by (auto split: if_splits)
    from starts_withD [OF sw] show ?thesis
      using p r by simp
  next
    case (Some a)
    obtain p0 r0 where a: "a = (p0, r0)" by (cases a)
    with Some Cons.prems have "p = c # p0" "r = r0" by auto
    moreover from Cons.IH Some a have "cs = p0 @ pat @ r0" by simp
    ultimately show ?thesis by simp
  qed
qed

lemma greedy_split_complete:
  "s = p' @ pat @ r' \<Longrightarrow> \<exists>p r. greedy_split pat s = Some (p, r) \<and> length p' \<le> length p"
proof (induction s arbitrary: p')
  case Nil
  then show ?case by simp
next
  case (Cons c cs)
  show ?case
  proof (cases p')
    case Nil
    with Cons.prems have "starts_with pat (c # cs)"
      by (simp add: starts_with_def)
    with Nil show ?thesis
      by (cases "greedy_split pat cs") auto
  next
    case (Cons e p'')
    with Cons.prems have "cs = p'' @ pat @ r'" by simp
    from Cons.IH [OF this] obtain p r
      where "greedy_split pat cs = Some (p, r)" "length p'' \<le> length p" by blast
    with Cons show ?thesis by simp
  qed
qed

lemma greedy_split_iff:
  "greedy_split pat s = Some (p, r) \<longleftrightarrow>
     s = p @ pat @ r \<and> (\<forall>p' r'. s = p' @ pat @ r' \<longrightarrow> length p' \<le> length p)"
proof
  assume g: "greedy_split pat s = Some (p, r)"
  show "s = p @ pat @ r \<and> (\<forall>p' r'. s = p' @ pat @ r' \<longrightarrow> length p' \<le> length p)"
  proof (intro conjI allI impI)
    show "s = p @ pat @ r" by (rule greedy_split_sound [OF g])
  next
    fix p' r' assume "s = p' @ pat @ r'"
    from greedy_split_complete [OF this] g show "length p' \<le> length p" by auto
  qed
next
  assume a: "s = p @ pat @ r \<and> (\<forall>p' r'. s = p' @ pat @ r' \<longrightarrow> length p' \<le> length p)"
  then have s: "s = p @ pat @ r" by simp
  from greedy_split_complete [OF s] obtain p2 r2
    where g: "greedy_split pat s = Some (p2, r2)" and le: "length p \<le> length p2" by blast
  have s2: "s = p2 @ pat @ r2" by (rule greedy_split_sound [OF g])
  with a have "length p2 \<le> length p" by blast
  with le have "length p2 = length p" by simp
  with s s2 have "p2 = p \<and> r2 = r" by (metis append_eq_append_conv same_append_eq)
  with g show "greedy_split pat s = Some (p, r)" by simp
qed

lemma greedy_split_single:
  assumes "c \<notin> set v"
  shows "greedy_split [c] (p @ c # v) = Some (p, v)"
proof (induction p)
  case Nil
  have "greedy_split [c] v = None"
  proof (cases "greedy_split [c] v")
    case (Some a)
    obtain p0 r0 where "a = (p0, r0)" by (cases a)
    with Some have "v = p0 @ [c] @ r0" by (auto dest: greedy_split_sound)
    then have "c \<in> set v" by simp
    with assms show ?thesis by simp
  qed simp
  then show ?case by (simp add: starts_with_def)
next
  case (Cons e p)
  then show ?case by simp
qed

lemma greedy_split_end:
  assumes "pat \<noteq> []"
  shows "greedy_split pat (p @ pat) = Some (p, [])"
proof -
  have "\<And>p' r'. p @ pat = p' @ pat @ r' \<Longrightarrow> length p' \<le> length p"
  proof -
    fix p' r' assume "p @ pat = p' @ pat @ r'"
    then have "length (p @ pat) = length (p' @ pat @ r')" by simp
    then show "length p' \<le> length p" by simp
  qed
  then show ?thesis
    by (subst greedy_split_iff) auto
qed

section \<open>Properties of load\<close>

text \<open>
  Claim C6. When \<^verbatim>\<open>load\<close> is called without a path on an instance without a bound
  path, or when the resolved path does not exist in the file system, \<^verbatim>\<open>load\<close>
  returns \<^verbatim>\<open>-1\<close> and the instance, its mapping included, is what it was.
\<close>

theorem load_not_found:
  assumes "(p = None \<and> path self = None) \<or> (\<exists>q. resolve_path self p = Some q \<and> fs q = None)"
  shows "load self p fs = Inr (RetMinusOne, self)"
  using assms by (auto simp: load_def resolve_path_def)

theorem load_not_found_witness:
  "load (Defconfig None) None (Map.empty(''defconfig'' \<mapsto> File ''CONFIG_A=y''))
     = Inr (RetMinusOne, Defconfig None) \<and>
   load \<lparr>path = Some ''configs/x/defconfig'', opts = [(''A'', ''y'')]\<rparr> (Some ''defconfig'') Map.empty
     = Inr (RetMinusOne, \<lparr>path = Some ''configs/x/defconfig'', opts = [(''A'', ''y'')]\<rparr>)"
  using load_not_found [of None "Defconfig None" "Map.empty(''defconfig'' \<mapsto> File ''CONFIG_A=y'')"]
    load_not_found [of "Some ''defconfig''" "\<lparr>path = Some ''configs/x/defconfig'', opts = [(''A'', ''y'')]\<rparr>" Map.empty]
  by (simp add: Defconfig_def resolve_path_def)

text \<open>
  Claim C10, as stated, fails: \<^verbatim>\<open>load\<close> is not total over the content of the file.
  On an existing regular file whose bytes are not valid in the encoding that
  \<^verbatim>\<open>open\<close> uses, the iteration over the lines raises \<^verbatim>\<open>UnicodeDecodeError\<close>.
\<close>

theorem load_undecodable_counterexample:
  "load (Defconfig None) (Some ''defconfig'') (Map.empty(''defconfig'' \<mapsto> Undecodable)) =
     Inl UnicodeDecodeError"
  by (simp add: load_def resolve_path_def)

text \<open>
  Claim C10, amended. On an existing regular file whose bytes decode to a text,
  \<^verbatim>\<open>load\<close> returns normally whatever the text is. No call in the loop raises, on any
  sequence of lines: a match of the disabled-option expression has the group
  \<^verbatim>\<open>symbol\<close> and a match of the assignment expression has the groups \<^verbatim>\<open>symbol\<close>
  and \<^verbatim>\<open>value\<close>, which are the only groups that are read. Every line is handled by
  exactly one of three cases: it matches the disabled-option expression, or it does not
  and matches the assignment expression, or it matches neither and the mapping stays as
  it is.
\<close>

theorem load_total:
  assumes "resolve_path self p = Some q" and "fs q = Some (File content)"
  shows "load self p fs =
           Inr (RetNone, self\<lparr>opts := load_lines (opts self) (file_lines content)\<rparr>) \<and>
         (\<forall>d ls. run_lines d ls = Inr (load_lines d ls)) \<and>
         (\<forall>d line.
            (\<exists>m s. is_not_set_match line = Some m \<and> match_group m ''symbol'' = Inr s \<and>
                 run_line d line = Inr (dict_set d (replace1 ''CONFIG_'' '''' s) ''n'')) \<or>
            (\<exists>m s v. is_not_set_match line = None \<and> is_config_match line = Some m \<and>
                 match_group m ''symbol'' = Inr s \<and> match_group m ''value'' = Inr v \<and>
                 run_line d line = Inr (dict_set d (replace1 ''CONFIG_'' '''' s) v)) \<or>
            (is_not_set_match line = None \<and> is_config_match line = None \<and>
                 run_line d line = Inr d))"
proof (intro conjI allI)
  show "load self p fs =
          Inr (RetNone, self\<lparr>opts := load_lines (opts self) (file_lines content)\<rparr>)"
    using assms by (rule load_file)
next
  fix d ls
  show "run_lines d ls = Inr (load_lines d ls)" by (rule run_lines_eq)
next
  fix d line
  show "(\<exists>m s. is_not_set_match line = Some m \<and> match_group m ''symbol'' = Inr s \<and>
                 run_line d line = Inr (dict_set d (replace1 ''CONFIG_'' '''' s) ''n'')) \<or>
            (\<exists>m s v. is_not_set_match line = None \<and> is_config_match line = Some m \<and>
                 match_group m ''symbol'' = Inr s \<and> match_group m ''value'' = Inr v \<and>
                 run_line d line = Inr (dict_set d (replace1 ''CONFIG_'' '''' s) v)) \<or>
            (is_not_set_match line = None \<and> is_config_match line = None \<and>
                 run_line d line = Inr d)"
  proof (cases "is_not_set line")
    case (Some s)
    then have "is_not_set_match line = Some [(''symbol'', s)]"
      by (simp add: is_not_set_match_def)
    moreover have "match_group [(''symbol'', s)] ''symbol'' = Inr s"
      by (simp add: match_group_def)
    ultimately show ?thesis by (simp add: run_line_def)
  next
    case None
    then have n: "is_not_set_match line = None" by (simp add: is_not_set_match_def)
    show ?thesis
    proof (cases "is_config line")
      case None
      then have "is_config_match line = None" by (simp add: is_config_match_def)
      with n show ?thesis by (simp add: run_line_def)
    next
      case (Some a)
      obtain s v where "a = (s, v)" by (cases a)
      with Some have "is_config_match line = Some [(''symbol'', s), (''value'', v)]"
        by (simp add: is_config_match_def)
      moreover have "match_group [(''symbol'', s), (''value'', v)] ''symbol'' = Inr s"
        and "match_group [(''symbol'', s), (''value'', v)] ''value'' = Inr v"
        by (simp_all add: match_group_def)
      ultimately show ?thesis using n by (simp add: run_line_def)
    qed
  qed
qed

theorem load_total_witness:
  "load (Defconfig (Some ''out'')) (Some ''defconfig'')
        (Map.empty(''defconfig'' \<mapsto> File (''CONFIG_FOO # no equals'' @ [LF] @ [LF] @ ''=='' @ [CR] @ ''# x is not set'')))
     = Inr (RetNone, \<lparr>path = Some ''out'', opts = [(''='', ''''), (''x'', ''n'')]\<rparr>)"
  using load_total [of "Defconfig (Some ''out'')" "Some ''defconfig''" "''defconfig''"
      "Map.empty(''defconfig'' \<mapsto> File (''CONFIG_FOO # no equals'' @ [LF] @ [LF] @ ''=='' @ [CR] @ ''# x is not set''))"
      "''CONFIG_FOO # no equals'' @ [LF] @ [LF] @ ''=='' @ [CR] @ ''# x is not set''"]
  by (simp add: resolve_path_def Defconfig_def file_lines_def load_line_def is_not_set_def is_config_def
      line_body_def starts_with_def LF_def CR_def)

text \<open>
  Claim C2, as stated, fails: on \<^verbatim>\<open>CONFIG_A=b=c\<close> the text after the first
  \<^verbatim>\<open>=\<close> is \<^verbatim>\<open>b=c\<close>, but the recorded value is \<^verbatim>\<open>c\<close>, under the symbol
  \<^verbatim>\<open>A=b\<close>.
\<close>

theorem assignment_value_counterexample:
  "load_line [] ''CONFIG_A=b=c'' = [(''A=b'', ''c'')] \<and>
   spec_value_after_first_eq ''CONFIG_A=b=c'' = ''b=c''"
  by (simp add: load_line_def is_not_set_def is_config_def line_body_def starts_with_def LF_def
      spec_value_after_first_eq_def)

text \<open>
  Claim C2, amended. For a line that is not a disabled-option line, the recorded value is
  the text after the last \<^verbatim>\<open>=\<close> of the line, up to the line terminator; the text
  before that \<^verbatim>\<open>=\<close> is the symbol, from which the first \<^verbatim>\<open>CONFIG_\<close> is removed.
  The value is taken as it is and may be empty.
\<close>

theorem load_line_assignment:
  assumes "is_not_set line = None"
    and "line_body line = s @ ''='' @ v"
    and "CHR ''='' \<notin> set v"
  shows "load_line d line = dict_set d (replace1 ''CONFIG_'' '''' s) v \<and>
         map_of (load_line d line) (replace1 ''CONFIG_'' '''' s) = Some v"
proof -
  have "is_config line = Some (s, v)"
    using assms(2,3) greedy_split_single [of "CHR ''=''" v s] by (simp add: is_config_def)
  with assms(1) have "load_line d line = dict_set d (replace1 ''CONFIG_'' '''' s) v"
    by (simp add: load_line_def)
  then show ?thesis by (simp add: map_of_dict_set)
qed

theorem load_line_assignment_witness:
  "is_not_set (''CONFIG_A=b=c'' @ [LF]) = None \<and>
   line_body (''CONFIG_A=b=c'' @ [LF]) = ''CONFIG_A=b'' @ ''='' @ ''c'' \<and>
   CHR ''='' \<notin> set ''c'' \<and>
   load_line [(''X'', ''1'')] (''CONFIG_A=b=c'' @ [LF]) = [(''X'', ''1''), (''A=b'', ''c'')]"
  using load_line_assignment [of "''CONFIG_A=b=c'' @ [LF]" "''CONFIG_A=b''" "''c''" "[(''X'', ''1'')]"]
  by (simp add: is_not_set_def line_body_def starts_with_def LF_def)

text \<open>
  Claim C8, as stated, fails: a line with text after \<^verbatim>\<open>is not set\<close> is not of the
  exact form, and \<^verbatim>\<open>load\<close> still records its symbol with the value \<^verbatim>\<open>n\<close>.
\<close>

theorem not_set_exact_form_counterexample:
  "\<not> spec_exact_not_set_form (''# CONFIG_FOO is not set by default'' @ [LF]) \<and>
   load_line [] (''# CONFIG_FOO is not set by default'' @ [LF]) = [(''FOO'', ''n'')]"
  by (simp add: load_line_def is_not_set_def line_body_def starts_with_def LF_def
      spec_exact_not_set_form_def suffix_def)

text \<open>
  Claim C8, amended. The disabled-option expression matches a line with symbol text \<open>s\<close>
  exactly when the line starts with \<^verbatim>\<open># \<close>, followed by \<open>s\<close>, followed by
  \<^verbatim>\<open> is not set\<close>, followed by any text, where \<open>s\<close> is the longest such text (it
  ends at the last \<^verbatim>\<open> is not set\<close> before the line terminator). Then \<^verbatim>\<open>load\<close>
  records \<open>s\<close>, with the first \<^verbatim>\<open>CONFIG_\<close> removed, with the value \<^verbatim>\<open>n\<close>.
\<close>

theorem is_not_set_iff:
  "(is_not_set line = Some s \<longleftrightarrow>
      (\<exists>rest. line_body line = ''# '' @ s @ '' is not set'' @ rest \<and>
         (\<forall>s' rest'. line_body line = ''# '' @ s' @ '' is not set'' @ rest' \<longrightarrow>
            length s' \<le> length s))) \<and>
   (is_not_set line = Some s \<longrightarrow>
      load_line d line = dict_set d (replace1 ''CONFIG_'' '''' s) ''n'')"
proof
  let ?b = "line_body line"
  show "is_not_set line = Some s \<longleftrightarrow>
      (\<exists>rest. ?b = ''# '' @ s @ '' is not set'' @ rest \<and>
         (\<forall>s' rest'. ?b = ''# '' @ s' @ '' is not set'' @ rest' \<longrightarrow> length s' \<le> length s))"
  proof (cases "starts_with ''# '' ?b")
    case False
    then have "is_not_set line = None" by (simp add: is_not_set_def)
    moreover have "\<And>t. ?b \<noteq> ''# '' @ t"
      using False starts_with_append [of "''# ''"] by metis
    ultimately show ?thesis by simp
  next
    case True
    from starts_withD [OF this] have b: "?b = ''# '' @ drop 2 ?b" by (simp add: numeral_2_eq_2)
    have eq: "\<And>t. (?b = ''# '' @ t) = (drop 2 ?b = t)"
      using b by (metis same_append_eq)
    have "is_not_set line = Some s \<longleftrightarrow> (\<exists>r. greedy_split '' is not set'' (drop 2 ?b) = Some (s, r))"
      using True by (auto simp: is_not_set_def)
    also have "\<dots> \<longleftrightarrow> (\<exists>r. drop 2 ?b = s @ '' is not set'' @ r \<and>
         (\<forall>p' r'. drop 2 ?b = p' @ '' is not set'' @ r' \<longrightarrow> length p' \<le> length s))"
      by (simp only: greedy_split_iff)
    finally show ?thesis by (simp only: eq)
  qed
next
  show "is_not_set line = Some s \<longrightarrow>
      load_line d line = dict_set d (replace1 ''CONFIG_'' '''' s) ''n''"
    by (simp add: load_line_def)
qed

theorem is_not_set_iff_witness:
  "is_not_set (''# CONFIG_A is not set is not set yet'' @ [LF]) = Some ''CONFIG_A is not set'' \<and>
   (\<exists>rest. line_body (''# CONFIG_A is not set is not set yet'' @ [LF]) =
      ''# '' @ ''CONFIG_A is not set'' @ '' is not set'' @ rest) \<and>
   load_line [] (''# CONFIG_A is not set is not set yet'' @ [LF]) = [(''A is not set'', ''n'')]"
proof -
  have m: "is_not_set (''# CONFIG_A is not set is not set yet'' @ [LF]) = Some ''CONFIG_A is not set''"
    by (simp add: is_not_set_def line_body_def starts_with_def LF_def)
  from is_not_set_iff [of "''# CONFIG_A is not set is not set yet'' @ [LF]" "''CONFIG_A is not set''" "[]"] m
  show ?thesis by (simp add: starts_with_def)
qed

section \<open>Facts about the loops of save and save_diff\<close>

lemma save_config_eq:
  "save_config config items =
     config @ map (\<lambda>(s, v). if v = ''n'' then ''# CONFIG_'' @ s @ '' is not set''
                              else ''CONFIG_'' @ s @ ''='' @ v) items"
  by (induction config items rule: save_config.induct) simp_all

lemma diff_minus_eq:
  "diff_minus so acc items =
     acc @ map (\<lambda>(s, v). ''-'' @ s @ ''='' @ v) (filter (\<lambda>(s, v). map_of so s = None) items)"
  by (induction so acc items rule: diff_minus.induct) simp_all

lemma diff_plus_changes_eq:
  "diff_plus_changes t (pl, ch) items =
     (pl @ map (\<lambda>(s, v). ''+'' @ s @ ''='' @ v) (filter (\<lambda>(s, v). map_of t s = None) items),
      ch @ map (\<lambda>(s, v). '' '' @ s @ ''='' @ the (map_of t s) @ ''->'' @ v)
             (filter (\<lambda>(s, v). map_of t s \<notin> {None, Some v}) items))"
  by (induction t "(pl, ch)" items arbitrary: pl ch rule: diff_plus_changes.induct)
    (auto split: option.splits)

lemma sort_cong_mset: "mset xs = mset ys \<Longrightarrow> sort xs = sort (ys :: 'a::linorder list)"
  by (metis mset_sort properties_for_sort sorted_sort)

lemma write_file_ok:
  "fs q \<noteq> Some Dir \<Longrightarrow> write_file fs (Some q) text = Inr (fs(q \<mapsto> File text))"
  by (auto simp: write_file_def split: option.splits fs_node.splits)

lemma replace1_no_occurrence: "\<not> sublist old s \<Longrightarrow> replace1 old new s = s"
proof (induction s)
  case Nil
  then show ?case by simp
next
  case (Cons c cs)
  have "\<not> starts_with old (c # cs)"
  proof
    assume "starts_with old (c # cs)"
    then have "prefix old (c # cs)"
      unfolding starts_with_def by (metis take_is_prefix)
    then have "sublist old (c # cs)" by (rule prefix_imp_sublist)
    with Cons.prems show False by simp
  qed
  moreover have "\<not> sublist old cs"
    using Cons.prems by (auto simp: sublist_Cons_right)
  ultimately show ?case using Cons.IH by simp
qed

lemma replace1_prefix: "old \<noteq> [] \<Longrightarrow> replace1 old new (old @ r) = new @ r"
  by (cases old) (simp_all add: starts_with_def)

lemma save_config_prefixed:
  "l \<in> set (save_config [] items) \<Longrightarrow>
     starts_with ''CONFIG_'' l \<or> starts_with ''# CONFIG_'' l"
  by (auto simp: save_config_eq starts_with_def)

section \<open>Properties of save\<close>

text \<open>
  Claim C7. \<^verbatim>\<open>save\<close> writes the fixed header first and then the entry lines: a
  sorted list that holds, for every item of the mapping, the line
  \<^verbatim>\<open># CONFIG_SYMBOL is not set\<close> when the value is \<^verbatim>\<open>n\<close> and
  \<^verbatim>\<open>CONFIG_SYMBOL=VALUE\<close> otherwise. The order is that of the formatted lines, so
  two instances with the same items in another insertion order write the same file.
\<close>

theorem save_sorted_entries:
  assumes "resolve_path self p = Some q" and "fs q \<noteq> Some Dir"
  shows "\<exists>entries.
           save self p fs =
             Inr (fs(q \<mapsto> File (DEFCONFIG_HEADER @ [LF] @ join [LF] entries @ [LF]))) \<and>
           sorted entries \<and>
           mset entries =
             mset (map (\<lambda>(s, v). if v = ''n'' then ''# CONFIG_'' @ s @ '' is not set''
                                   else ''CONFIG_'' @ s @ ''='' @ v) (opts self)) \<and>
           (\<forall>other. mset (opts other) = mset (opts self) \<longrightarrow>
                    save other (Some q) fs = save self p fs)"
proof (intro exI conjI allI impI)
  let ?entries = "sort (save_config [] (sort (opts self)))"
  show "save self p fs =
          Inr (fs(q \<mapsto> File (DEFCONFIG_HEADER @ [LF] @ join [LF] ?entries @ [LF])))"
    using assms by (simp add: save_def save_text_def write_file_ok)
  show "sorted ?entries" by simp
  show "mset ?entries =
          mset (map (\<lambda>(s, v). if v = ''n'' then ''# CONFIG_'' @ s @ '' is not set''
                                else ''CONFIG_'' @ s @ ''='' @ v) (opts self))"
    by (simp add: save_config_eq)
next
  fix other :: defconfig
  assume "mset (opts other) = mset (opts self)"
  then have "sort (opts other) = sort (opts self)" by (rule sort_cong_mset)
  then have "save_text (opts other) = save_text (opts self)" by (simp add: save_text_def)
  then show "save other (Some q) fs = save self p fs"
    using assms(1) by (simp add: save_def resolve_path_def)
qed

theorem save_sorted_entries_witness:
  "resolve_path \<lparr>path = Some ''out'', opts = [(''B'', ''y''), (''A'', ''n''), (''A_X'', ''1'')]\<rparr> None = Some ''out'' \<and>
   Map.empty ''out'' \<noteq> Some Dir \<and>
   save \<lparr>path = Some ''out'', opts = [(''B'', ''y''), (''A'', ''n''), (''A_X'', ''1'')]\<rparr> None Map.empty =
     Inr (Map.empty(''out'' \<mapsto> File (DEFCONFIG_HEADER @ [LF] @
       ''# CONFIG_A is not set'' @ [LF] @ ''CONFIG_A_X=1'' @ [LF] @ ''CONFIG_B=y'' @ [LF])))"
  using save_sorted_entries [of "\<lparr>path = Some ''out'', opts = [(''B'', ''y''), (''A'', ''n''), (''A_X'', ''1'')]\<rparr>"
      None "''out''" Map.empty]
  by (simp add: resolve_path_def save_def save_text_def write_file_def)

section \<open>Properties of save_diff\<close>

text \<open>
  Claim C5. \<^verbatim>\<open>save_diff\<close> writes three groups of lines, each sorted, in the order
  minus, changes, plus: \<^verbatim>\<open>-SYMBOL=VALUE\<close> for the items of the other instance
  whose symbol this instance lacks, \<^verbatim>\<open> SYMBOL=OTHER->SELF\<close> for the items of this
  instance whose symbol the other instance has with another value, and
  \<^verbatim>\<open>+SYMBOL=VALUE\<close> for the items of this instance whose symbol the other instance
  lacks. No line belongs to two groups.
\<close>

theorem save_diff_groups:
  assumes "resolve_path self p = Some q" and "fs q \<noteq> Some Dir"
  shows "\<exists>minus_list changes plus_list.
     save_diff self target p fs =
       Inr (fs(q \<mapsto> File (join [LF] (minus_list @ changes @ plus_list) @ [LF]))) \<and>
     sorted minus_list \<and> sorted changes \<and> sorted plus_list \<and>
     mset minus_list =
       mset (map (\<lambda>(s, v). ''-'' @ s @ ''='' @ v)
              (filter (\<lambda>(s, v). map_of (opts self) s = None) (opts target))) \<and>
     mset changes =
       mset (map (\<lambda>(s, v). '' '' @ s @ ''='' @ the (map_of (opts target) s) @ ''->'' @ v)
              (filter (\<lambda>(s, v). map_of (opts target) s \<notin> {None, Some v}) (opts self))) \<and>
     mset plus_list =
       mset (map (\<lambda>(s, v). ''+'' @ s @ ''='' @ v)
              (filter (\<lambda>(s, v). map_of (opts target) s = None) (opts self))) \<and>
     set minus_list \<inter> set changes = {} \<and>
     set minus_list \<inter> set plus_list = {} \<and>
     set changes \<inter> set plus_list = {}"
proof -
  let ?m = "map (\<lambda>(s, v). ''-'' @ s @ ''='' @ v)
              (filter (\<lambda>(s, v). map_of (opts self) s = None) (opts target))"
  let ?c = "map (\<lambda>(s, v). '' '' @ s @ ''='' @ the (map_of (opts target) s) @ ''->'' @ v)
              (filter (\<lambda>(s, v). map_of (opts target) s \<notin> {None, Some v}) (opts self))"
  let ?p = "map (\<lambda>(s, v). ''+'' @ s @ ''='' @ v)
              (filter (\<lambda>(s, v). map_of (opts target) s = None) (opts self))"
  have out: "diff_out (opts self) (opts target) = sort ?m @ sort ?c @ sort ?p"
    by (simp add: diff_out_def diff_minus_eq diff_plus_changes_eq)
  have hm: "\<forall>l \<in> set (sort ?m). hd l = CHR ''-''" by auto
  have hc: "\<forall>l \<in> set (sort ?c). hd l = CHR '' ''" by auto
  have hp: "\<forall>l \<in> set (sort ?p). hd l = CHR ''+''" by auto
  have d1: "set (sort ?m) \<inter> set (sort ?c) = {}" using hm hc by fastforce
  have d2: "set (sort ?m) \<inter> set (sort ?p) = {}" using hm hp by fastforce
  have d3: "set (sort ?c) \<inter> set (sort ?p) = {}" using hc hp by fastforce
  have w: "save_diff self target p fs =
       Inr (fs(q \<mapsto> File (join [LF] (sort ?m @ sort ?c @ sort ?p) @ [LF])))"
    using assms by (simp add: save_diff_def out write_file_ok)
  show ?thesis
    apply (rule exI [of _ "sort ?m"])
    apply (rule exI [of _ "sort ?c"])
    apply (rule exI [of _ "sort ?p"])
    using w d1 d2 d3 by simp
qed

theorem save_diff_groups_witness:
  "resolve_path \<lparr>path = Some ''out'', opts = [(''A'', ''1''), (''B'', ''2'')]\<rparr> None = Some ''out'' \<and>
   Map.empty ''out'' \<noteq> Some Dir \<and>
   save_diff \<lparr>path = Some ''out'', opts = [(''A'', ''1''), (''B'', ''2'')]\<rparr>
       \<lparr>path = Some ''base'', opts = [(''B'', ''3''), (''C'', ''4'')]\<rparr> None Map.empty =
     Inr (Map.empty(''out'' \<mapsto> File (''-C=4'' @ [LF] @ '' B=3->2'' @ [LF] @ ''+A=1'' @ [LF])))"
  using save_diff_groups [of "\<lparr>path = Some ''out'', opts = [(''A'', ''1''), (''B'', ''2'')]\<rparr>"
      None "''out''" Map.empty "\<lparr>path = Some ''base'', opts = [(''B'', ''3''), (''C'', ''4'')]\<rparr>"]
  by (simp add: resolve_path_def save_diff_def diff_out_def write_file_def)

text \<open>
  Claim C4, as stated, fails: with identical mappings the diff has no line, but the
  file that is written is not empty, it holds the line terminator that
  \<^verbatim>\<open>print\<close> adds.
\<close>

theorem save_diff_identical_counterexample:
  "save_diff \<lparr>path = Some ''out'', opts = [(''A'', ''y'')]\<rparr> \<lparr>path = None, opts = [(''A'', ''y'')]\<rparr>
     None Map.empty = Inr (Map.empty(''out'' \<mapsto> File [LF])) \<and>
   File [LF] \<noteq> File ''''"
  by (simp add: save_diff_def write_file_def resolve_path_def diff_out_def)

text \<open>
  Claim C4, amended. With identical mappings the diff has no line and the file that
  is written consists of a single line terminator.
\<close>

theorem save_diff_identical:
  assumes "distinct (map fst (opts self))"
    and "map_of (opts self) = map_of (opts target)"
    and "resolve_path self p = Some q" and "fs q \<noteq> Some Dir"
  shows "diff_out (opts self) (opts target) = [] \<and>
         save_diff self target p fs = Inr (fs(q \<mapsto> File [LF]))"
proof -
  have m: "filter (\<lambda>(s, v). map_of (opts self) s = None) (opts target) = []"
    using assms(2) by (auto simp: filter_empty_conv weak_map_of_SomeI map_of_eq_None_iff
        intro: rev_image_eqI)
  have p: "filter (\<lambda>(s, v). map_of (opts target) s = None) (opts self) = []"
    using assms(2) by (auto simp: filter_empty_conv map_of_eq_None_iff intro: rev_image_eqI
        simp flip: assms(2))
  have c: "filter (\<lambda>(s, v). map_of (opts target) s \<notin> {None, Some v}) (opts self) = []"
    using assms(1) by (auto simp: filter_empty_conv simp flip: assms(2))
  have "diff_out (opts self) (opts target) =
          sort (map (\<lambda>(s, v). ''-'' @ s @ ''='' @ v)
                 (filter (\<lambda>(s, v). map_of (opts self) s = None) (opts target))) @
          sort (map (\<lambda>(s, v). '' '' @ s @ ''='' @ the (map_of (opts target) s) @ ''->'' @ v)
                 (filter (\<lambda>(s, v). map_of (opts target) s \<notin> {None, Some v}) (opts self))) @
          sort (map (\<lambda>(s, v). ''+'' @ s @ ''='' @ v)
                 (filter (\<lambda>(s, v). map_of (opts target) s = None) (opts self)))"
    by (simp add: diff_out_def diff_minus_eq diff_plus_changes_eq)
  then have "diff_out (opts self) (opts target) = []"
    unfolding m p c by simp
  then show ?thesis
    using assms(3,4) by (simp add: save_diff_def write_file_ok)
qed

theorem save_diff_identical_witness:
  "distinct (map fst [(''A'', ''1''), (''B'', ''n'')]) \<and>
   map_of [(''A'', ''1''), (''B'', ''n'')] = map_of [(''B'', ''n''), (''A'', ''1'')] \<and>
   save_diff \<lparr>path = None, opts = [(''A'', ''1''), (''B'', ''n'')]\<rparr>
       \<lparr>path = None, opts = [(''B'', ''n''), (''A'', ''1'')]\<rparr> (Some ''out'') Map.empty =
     Inr (Map.empty(''out'' \<mapsto> File [LF]))"
proof -
  have e: "map_of [(''A'', ''1''), (''B'', ''n'')] = map_of [(''B'', ''n''), (''A'', ''1'')]"
    by (auto simp: fun_eq_iff)
  from save_diff_identical [of "\<lparr>path = None, opts = [(''A'', ''1''), (''B'', ''n'')]\<rparr>"
      "\<lparr>path = None, opts = [(''B'', ''n''), (''A'', ''1'')]\<rparr>" "Some ''out''" "''out''" Map.empty] e
  show ?thesis by (simp add: resolve_path_def)
qed

section \<open>The prefix of the stored symbols\<close>

text \<open>
  Claim C3, as stated, fails: only the first \<^verbatim>\<open>CONFIG_\<close> of a symbol text is
  removed, so the line \<^verbatim>\<open>CONFIG_CONFIG_A=y\<close> stores the key \<^verbatim>\<open>CONFIG_A\<close>.
\<close>

theorem load_key_prefix_counterexample:
  "load_line [] (''CONFIG_CONFIG_A=y'' @ [LF]) = [(''CONFIG_A'', ''y'')] \<and>
   sublist ''CONFIG_'' ''CONFIG_A''"
  by (simp add: load_line_def is_not_set_def is_config_def line_body_def starts_with_def LF_def
      sublist_code prefix_code)

text \<open>
  Claim C3, amended. When no key of the mapping contains \<^verbatim>\<open>CONFIG_\<close> and the symbol
  text of every line that \<^verbatim>\<open>load\<close> accepts is either free of \<^verbatim>\<open>CONFIG_\<close> or is
  \<^verbatim>\<open>CONFIG_\<close> followed by a text free of it, then no key contains \<^verbatim>\<open>CONFIG_\<close>
  after the lines are loaded; and every entry line that \<^verbatim>\<open>save\<close> formats begins with
  \<^verbatim>\<open>CONFIG_\<close> or with \<^verbatim>\<open># CONFIG_\<close>.
\<close>

theorem load_keys_prefix_free:
  assumes "\<forall>k \<in> fst ` set d. \<not> sublist ''CONFIG_'' k"
    and "\<forall>line \<in> set ls. \<forall>s.
           (is_not_set line = Some s \<or>
            (is_not_set line = None \<and> (\<exists>v. is_config line = Some (s, v)))) \<longrightarrow>
           (\<not> sublist ''CONFIG_'' s \<or>
            (\<exists>name. s = ''CONFIG_'' @ name \<and> \<not> sublist ''CONFIG_'' name))"
  shows "(\<forall>k \<in> fst ` set (load_lines d ls). \<not> sublist ''CONFIG_'' k) \<and>
         (\<forall>l \<in> set (save_config [] (sort (load_lines d ls))).
            starts_with ''CONFIG_'' l \<or> starts_with ''# CONFIG_'' l)"
proof
  have strip: "\<not> sublist ''CONFIG_'' (replace1 ''CONFIG_'' '''' s)"
    if "\<not> sublist ''CONFIG_'' s \<or> (\<exists>name. s = ''CONFIG_'' @ name \<and> \<not> sublist ''CONFIG_'' name)"
    for s
  proof (cases "sublist ''CONFIG_'' s")
    case False
    then show ?thesis by (simp only: replace1_no_occurrence not_False_eq_True)
  next
    case True
    with that obtain name where s: "s = ''CONFIG_'' @ name"
      and n: "\<not> sublist ''CONFIG_'' name" by blast
    have "replace1 ''CONFIG_'' '''' (''CONFIG_'' @ name) = '''' @ name"
      by (rule replace1_prefix) simp
    with s n show ?thesis by simp
  qed
  show "\<forall>k \<in> fst ` set (load_lines d ls). \<not> sublist ''CONFIG_'' k"
    using assms
  proof (induction ls arbitrary: d)
    case Nil
    then show ?case by simp
  next
    case (Cons line ls)
    have step: "\<forall>k \<in> fst ` set (load_line d line). \<not> sublist ''CONFIG_'' k"
    proof (cases "is_not_set line")
      case (Some s)
      with Cons.prems(2) have "\<not> sublist ''CONFIG_'' (replace1 ''CONFIG_'' '''' s)"
        by (intro strip) simp
      with Some Cons.prems(1) show ?thesis
        by (simp add: load_line_def keys_dict_set)
    next
      case None
      show ?thesis
      proof (cases "is_config line")
        case n: None
        with None Cons.prems(1) show ?thesis by (simp add: load_line_def)
      next
        case (Some a)
        obtain s v where a: "a = (s, v)" by (cases a)
        with Some None Cons.prems(2) have "\<not> sublist ''CONFIG_'' (replace1 ''CONFIG_'' '''' s)"
          by (intro strip) simp
        with Some None a Cons.prems(1) show ?thesis
          by (simp add: load_line_def keys_dict_set)
      qed
    qed
    from Cons.prems(2) have rest: "\<forall>line \<in> set ls. \<forall>s.
           (is_not_set line = Some s \<or>
            (is_not_set line = None \<and> (\<exists>v. is_config line = Some (s, v)))) \<longrightarrow>
           (\<not> sublist ''CONFIG_'' s \<or>
            (\<exists>name. s = ''CONFIG_'' @ name \<and> \<not> sublist ''CONFIG_'' name))"
      by simp
    from Cons.IH [OF step rest] show ?case by simp
  qed
next
  show "\<forall>l \<in> set (save_config [] (sort (load_lines d ls))).
            starts_with ''CONFIG_'' l \<or> starts_with ''# CONFIG_'' l"
  proof (intro ballI)
    fix l
    assume "l \<in> set (save_config [] (sort (load_lines d ls)))"
    then show "starts_with ''CONFIG_'' l \<or> starts_with ''# CONFIG_'' l"
      by (rule save_config_prefixed)
  qed
qed

theorem load_keys_prefix_free_witness:
  "load_lines [(''X'', ''1'')] [''CONFIG_A=y'' @ [LF], ''junk'' @ [LF], ''# CONFIG_B is not set'' @ [LF], ''C=2'']
     = [(''X'', ''1''), (''A'', ''y''), (''B'', ''n''), (''C'', ''2'')] \<and>
   \<not> sublist ''CONFIG_'' ''X'' \<and> \<not> sublist ''CONFIG_'' ''A'' \<and>
   \<not> sublist ''CONFIG_'' ''B'' \<and> \<not> sublist ''CONFIG_'' ''C''"
proof -
  have 1: "\<forall>k \<in> fst ` set [(''X'', ''1'')]. \<not> sublist ''CONFIG_'' k"
    by (simp add: sublist_code prefix_code)
  have 2: "\<forall>line \<in> set [''CONFIG_A=y'' @ [LF], ''junk'' @ [LF], ''# CONFIG_B is not set'' @ [LF], ''C=2'']. \<forall>s.
           (is_not_set line = Some s \<or>
            (is_not_set line = None \<and> (\<exists>v. is_config line = Some (s, v)))) \<longrightarrow>
           (\<not> sublist ''CONFIG_'' s \<or>
            (\<exists>name. s = ''CONFIG_'' @ name \<and> \<not> sublist ''CONFIG_'' name))"
    by (simp add: is_not_set_def is_config_def line_body_def starts_with_def LF_def
        sublist_code prefix_code)
  have 3: "load_lines [(''X'', ''1'')] [''CONFIG_A=y'' @ [LF], ''junk'' @ [LF], ''# CONFIG_B is not set'' @ [LF], ''C=2'']
     = [(''X'', ''1''), (''A'', ''y''), (''B'', ''n''), (''C'', ''2'')]"
    by (simp add: load_line_def is_not_set_def is_config_def line_body_def starts_with_def LF_def)
  from load_keys_prefix_free [OF 1 2]
  have "\<forall>k \<in> fst ` set (load_lines [(''X'', ''1'')]
      [''CONFIG_A=y'' @ [LF], ''junk'' @ [LF], ''# CONFIG_B is not set'' @ [LF], ''C=2'']).
        \<not> sublist ''CONFIG_'' k"
    by (rule conjunct1)
  with 3 show ?thesis by simp
qed

section \<open>Facts about reading back a saved file\<close>

lemma save_config_entry_lines: "save_config config items = config @ map entry_line items"
  by (induction config items rule: save_config.induct) (simp_all add: entry_line_def)

lemma universal_newlines_id: "CR \<notin> set s \<Longrightarrow> universal_newlines s = s"
  by (induction s rule: universal_newlines.induct) auto

lemma split_lines_line:
  "LF \<notin> set l \<Longrightarrow> split_lines cur (l @ LF # rest) = (cur @ l @ [LF]) # split_lines [] rest"
  by (induction l arbitrary: cur) auto

lemma split_lines_join:
  assumes "\<forall>l \<in> set ls. LF \<notin> set l"
  shows "split_lines [] (join [LF] ls @ LF # rest) =
           map (\<lambda>l. l @ [LF]) (if ls = [] then [[]] else ls) @ split_lines [] rest"
  using assms
proof (induction "[LF]" ls rule: join.induct)
  case 1
  then show ?case by simp
next
  case (2 x)
  then show ?case using split_lines_line [of x "[]" rest] by simp
next
  case (3 x y ys)
  have "split_lines [] (x @ LF # (join [LF] (y # ys) @ LF # rest)) =
          (x @ [LF]) # split_lines [] (join [LF] (y # ys) @ LF # rest)"
    using 3(2) split_lines_line [of x "[]"] by simp
  with 3 show ?case by simp
qed

lemma set_join: "set (join sep ls) \<subseteq> set sep \<union> \<Union> (set ` set ls)"
  by (induction sep ls rule: join.induct) auto

lemma load_lines_append: "load_lines d (xs @ ys) = load_lines (load_lines d xs) ys"
  by (induction xs arbitrary: d) auto

lemma line_body_line: "LF \<notin> set b \<Longrightarrow> line_body (b @ LF # r) = b"
  by (auto simp: line_body_def takeWhile_tail)

lemma distinct_load_line: "distinct (map fst d) \<Longrightarrow> distinct (map fst (load_line d line))"
  by (auto simp: load_line_def distinct_dict_set split: option.splits)

lemma distinct_load_lines: "distinct (map fst d) \<Longrightarrow> distinct (map fst (load_lines d ls))"
  by (induction ls arbitrary: d) (simp_all add: distinct_load_line)

lemma mset_image_ex_map:
  "mset xs = image_mset f M \<Longrightarrow> \<exists>ys. xs = map f ys \<and> mset ys = M"
proof (induction xs arbitrary: M)
  case Nil
  then show ?case by simp
next
  case (Cons x xs)
  from Cons.prems have "x \<in># image_mset f M"
    by (metis list.set_intros(1) set_mset_mset)
  then obtain y where y: "y \<in># M" "f y = x" by auto
  then have M: "M = add_mset y (M - {#y#})" by simp
  from Cons.prems have "add_mset x (mset xs) = add_mset (f y) (image_mset f (M - {#y#}))"
    by (subst (asm) M) simp
  with y have "mset xs = image_mset f (M - {#y#})" by simp
  from Cons.IH [OF this] obtain ys where "xs = map f ys" "mset ys = M - {#y#}" by blast
  with y M have "x # xs = map f (y # ys) \<and> mset (y # ys) = M" by simp
  then show ?case by (rule exI [of _ "y # ys"])
qed

lemma header_join: "DEFCONFIG_HEADER = join [LF] header_lines"
  by (simp add: DEFCONFIG_HEADER_def header_lines_def)

lemma header_plain: "\<forall>l \<in> set header_lines. LF \<notin> set l \<and> CR \<notin> set l"
  by (simp add: header_lines_def LF_def CR_def)

lemma load_header: "load_lines d (map (\<lambda>l. l @ [LF]) header_lines) = d"
  by (simp add: header_lines_def load_line_def is_not_set_def is_config_def line_body_def
      starts_with_def LF_def)

lemma load_empty_line: "load_line d [LF] = d"
  by (simp add: load_line_def is_not_set_def is_config_def line_body_def starts_with_def)

lemma load_entry_line:
  assumes "LF \<notin> set s" and "LF \<notin> set v" and "CHR ''='' \<notin> set v"
  shows "load_line d (entry_line (s, v) @ [LF]) = dict_set d s v"
proof (cases "v = ''n''")
  case True
  have b: "line_body ((''# CONFIG_'' @ s @ '' is not set'') @ LF # []) =
             ''# CONFIG_'' @ s @ '' is not set''"
    by (rule line_body_line) (use assms(1) in \<open>simp add: LF_def\<close>)
  have g: "greedy_split '' is not set'' ((''CONFIG_'' @ s) @ '' is not set'') =
             Some (''CONFIG_'' @ s, [])"
    by (rule greedy_split_end) simp
  have "is_not_set (''# CONFIG_'' @ s @ '' is not set'' @ [LF]) = Some (''CONFIG_'' @ s)"
    using b g by (simp add: is_not_set_def starts_with_def)
  moreover have "replace1 ''CONFIG_'' '''' (''CONFIG_'' @ s) = '''' @ s"
    by (rule replace1_prefix) simp
  ultimately show ?thesis
    using True by (simp add: load_line_def entry_line_def)
next
  case False
  have b: "line_body ((''CONFIG_'' @ s @ ''='' @ v) @ LF # []) = ''CONFIG_'' @ s @ ''='' @ v"
    by (rule line_body_line) (use assms(1,2) in \<open>simp add: LF_def\<close>)
  have g: "greedy_split [CHR ''=''] ((''CONFIG_'' @ s) @ CHR ''='' # v) = Some (''CONFIG_'' @ s, v)"
    by (rule greedy_split_single) (rule assms(3))
  have n: "is_not_set (''CONFIG_'' @ s @ ''='' @ v @ [LF]) = None"
    using b by (simp add: is_not_set_def starts_with_def)
  have c: "is_config (''CONFIG_'' @ s @ ''='' @ v @ [LF]) = Some (''CONFIG_'' @ s, v)"
    using b g by (simp add: is_config_def)
  moreover have "replace1 ''CONFIG_'' '''' (''CONFIG_'' @ s) = '''' @ s"
    by (rule replace1_prefix) simp
  ultimately show ?thesis
    using False n by (simp add: load_line_def entry_line_def)
qed

lemma load_entry_lines:
  assumes "plain_opts es" and "list_all (\<lambda>(s, v). CHR ''='' \<notin> set v) es"
  shows "map_of (load_lines d (map (\<lambda>e. entry_line e @ [LF]) es)) = map_of d ++ map_of (rev es)"
  using assms
proof (induction es arbitrary: d)
  case Nil
  then show ?case by simp
next
  case (Cons e es)
  obtain s v where e: "e = (s, v)" by (cases e)
  with Cons.prems have "LF \<notin> set s" "LF \<notin> set v" "CHR ''='' \<notin> set v"
    by (simp_all add: plain_opts_def plain_text_def)
  then have l: "load_line d (entry_line (s, v) @ [LF]) = dict_set d s v"
    by (rule load_entry_line)
  from Cons.prems have 1: "plain_opts es" and 2: "list_all (\<lambda>(s, v). CHR ''='' \<notin> set v) es"
    by (simp_all add: plain_opts_def)
  from Cons.IH [OF 1 2, of "dict_set d s v"] l e show ?case
    by (simp add: map_of_dict_set fun_eq_iff map_add_def split: option.splits)
qed

lemma entry_line_plain:
  assumes "plain_text s" and "plain_text v"
  shows "LF \<notin> set (entry_line (s, v)) \<and> CR \<notin> set (entry_line (s, v))"
  using assms by (simp add: entry_line_def plain_text_def LF_def CR_def)

lemma file_lines_save_text:
  assumes "plain_opts d"
  shows "file_lines (save_text d) =
           map (\<lambda>l. l @ [LF]) header_lines @
           map (\<lambda>l. l @ [LF]) (if d = [] then [[]] else sort (map entry_line (sort d)))"
proof -
  let ?cfg = "sort (map entry_line (sort d))"
  have plain: "\<forall>l \<in> set ?cfg. LF \<notin> set l \<and> CR \<notin> set l"
  proof
    fix l assume "l \<in> set ?cfg"
    then obtain s v where "(s, v) \<in> set d" "l = entry_line (s, v)" by auto
    with assms have "plain_text s" "plain_text v" and l: "l = entry_line (s, v)"
      by (auto simp: plain_opts_def list_all_iff)
    then show "LF \<notin> set l \<and> CR \<notin> set l"
      unfolding l by (intro entry_line_plain)
  qed
  have st: "save_text d = join [LF] header_lines @ LF # (join [LF] ?cfg @ LF # [])"
    by (simp add: save_text_def header_join save_config_entry_lines)
  have "CR \<notin> set (join [LF] header_lines)"
    using set_join [of "[LF]" header_lines] header_plain by (auto simp: LF_def CR_def)
  moreover have "CR \<notin> set (join [LF] ?cfg)"
    using set_join [of "[LF]" ?cfg] plain by (auto simp: LF_def CR_def)
  ultimately have "CR \<notin> set (save_text d)"
    unfolding st by (simp add: LF_def CR_def)
  then have "file_lines (save_text d) = split_lines [] (save_text d)"
    by (simp add: file_lines_def universal_newlines_id)
  also have "\<dots> = map (\<lambda>l. l @ [LF]) header_lines @
      split_lines [] (join [LF] ?cfg @ LF # [])"
    unfolding st using split_lines_join [of header_lines] header_plain
    by (simp add: header_lines_def)
  also have "split_lines [] (join [LF] ?cfg @ LF # []) =
      map (\<lambda>l. l @ [LF]) (if ?cfg = [] then [[]] else ?cfg) @ split_lines [] []"
    using plain by (intro split_lines_join) simp
  also have "(?cfg = []) = (d = [])"
    by (metis length_0_conv length_map length_sort)
  finally show ?thesis by simp
qed

lemma sorted_entries_permutation:
  "\<exists>es. sort (map entry_line (sort d)) = map entry_line es \<and> mset es = mset d"
proof -
  have "mset (sort (map entry_line (sort d))) = image_mset entry_line (mset d)"
    by simp
  then show ?thesis by (rule mset_image_ex_map)
qed

lemma load_saved_entries:
  assumes "plain_opts d" and "d \<noteq> []"
  shows "\<exists>es. mset es = mset d \<and>
           load_lines [] (file_lines (save_text d)) =
             load_lines [] (map (\<lambda>e. entry_line e @ [LF]) es)"
proof -
  from sorted_entries_permutation obtain es
    where es: "sort (map entry_line (sort d)) = map entry_line es" and m: "mset es = mset d"
    by blast
  have "load_lines [] (file_lines (save_text d)) =
          load_lines [] (map (\<lambda>e. entry_line e @ [LF]) es)"
    using assms(2)
    by (simp add: file_lines_save_text [OF assms(1)] load_lines_append load_header es o_def)
  with m show ?thesis by blast
qed

lemma load_of_saved_text:
  assumes "roundtrip_safe d"
  shows "map_of (load_lines [] (file_lines (save_text d))) = map_of d"
proof (cases "d = []")
  case True
  have "file_lines (save_text []) = map (\<lambda>l. l @ [LF]) header_lines @ [[LF]]"
    using file_lines_save_text [of "[]"] by (simp add: plain_opts_def)
  then have "load_lines [] (file_lines (save_text [])) = []"
    by (simp only: load_lines_append load_header) (simp add: load_empty_line)
  then show ?thesis unfolding True by simp
next
  case False
  from assms have dist: "distinct (map fst d)" and plain: "plain_opts d"
    and good: "list_all (\<lambda>(s, v). CHR ''='' \<notin> set v) d"
    by (simp_all add: roundtrip_safe_def)
  from load_saved_entries [OF plain False] obtain es
    where m: "mset es = mset d"
      and l: "load_lines [] (file_lines (save_text d)) =
                load_lines [] (map (\<lambda>e. entry_line e @ [LF]) es)"
    by blast
  from m have s: "set es = set d" by (rule mset_eq_setD)
  with plain good have plain_es: "plain_opts es"
    and good_es: "list_all (\<lambda>(s, v). CHR ''='' \<notin> set v) es"
    by (simp_all add: plain_opts_def list_all_iff)
  from m have "mset (map fst es) = mset (map fst d)" by (metis mset_map)
  with dist have "distinct (map fst es)" by (metis mset_eq_imp_distinct_iff)
  then have dist_es: "distinct (map fst (rev es))" by (metis distinct_rev rev_map)
  have "map_of (load_lines [] (file_lines (save_text d))) = map_of (rev es)"
    unfolding l by (simp add: load_entry_lines [OF plain_es good_es])
  also have "\<dots> = map_of d"
    using dist_es dist s by (simp add: map_of_inject_set)
  finally show ?thesis .
qed

lemma load_entry_line_other:
  assumes "LF \<notin> set s" and "LF \<notin> set v" and "s \<noteq> key" and "CHR ''='' \<notin> set key"
  shows "map_of (load_line d (entry_line (s, v) @ [LF])) key = map_of d key"
proof (cases "CHR ''='' \<in> set v")
  case False
  with assms(1,2) have "load_line d (entry_line (s, v) @ [LF]) = dict_set d s v"
    by (intro load_entry_line)
  with assms(3) show ?thesis by (simp add: map_of_dict_set)
next
  case True
  then have vn: "v \<noteq> ''n''" by auto
  from split_list_last [OF True] obtain a r where v: "v = a @ CHR ''='' # r"
    and r: "CHR ''='' \<notin> set r" by blast
  have b: "line_body ((''CONFIG_'' @ s @ ''='' @ v) @ LF # []) = ''CONFIG_'' @ s @ ''='' @ v"
    by (rule line_body_line) (use assms(1,2) in \<open>simp add: LF_def\<close>)
  have g: "greedy_split [CHR ''=''] ((''CONFIG_'' @ s @ ''='' @ a) @ CHR ''='' # r) =
             Some (''CONFIG_'' @ s @ ''='' @ a, r)"
    by (rule greedy_split_single) (rule r)
  have n: "is_not_set (''CONFIG_'' @ s @ ''='' @ v @ [LF]) = None"
    using b by (simp add: is_not_set_def starts_with_def)
  have c: "is_config (''CONFIG_'' @ s @ ''='' @ v @ [LF]) = Some (''CONFIG_'' @ s @ ''='' @ a, r)"
    using b g by (simp add: is_config_def v)
  have p: "replace1 ''CONFIG_'' '''' (''CONFIG_'' @ (s @ ''='' @ a)) = '''' @ (s @ ''='' @ a)"
    by (rule replace1_prefix) simp
  have "load_line d (entry_line (s, v) @ [LF]) = dict_set d (s @ ''='' @ a) r"
    using vn n c p by (simp add: load_line_def entry_line_def)
  moreover from assms(4) have "s @ ''='' @ a \<noteq> key" by auto
  ultimately show ?thesis by (simp add: map_of_dict_set)
qed

lemma load_lines_keeps_disabled:
  assumes "distinct (map fst d)" and "plain_opts d" and "(key, ''n'') \<in> set d"
    and "CHR ''='' \<notin> set key"
    and "set es \<subseteq> set d"
    and "map_of d0 key = Some ''n'' \<or> (key, ''n'') \<in> set es"
  shows "map_of (load_lines d0 (map (\<lambda>e. entry_line e @ [LF]) es)) key = Some ''n''"
  using assms(5,6)
proof (induction es arbitrary: d0)
  case Nil
  then show ?case by simp
next
  case (Cons e es)
  obtain s v where e: "e = (s, v)" by (cases e)
  from Cons.prems(1) e have in_d: "(s, v) \<in> set d" and sub: "set es \<subseteq> set d" by simp_all
  from in_d assms(2) have pl: "LF \<notin> set s" "LF \<notin> set v"
    by (auto simp: plain_opts_def list_all_iff plain_text_def)
  have "map_of (load_line d0 (entry_line (s, v) @ [LF])) key = Some ''n'' \<or> (key, ''n'') \<in> set es"
  proof (cases "s = key")
    case True
    with in_d assms(1,3) have "v = ''n''" by (metis eq_key_imp_eq_value)
    with load_entry_line [OF pl(1), of "''n''" d0]
    have "load_line d0 (entry_line (s, v) @ [LF]) = dict_set d0 s ''n''"
      by (simp add: LF_def)
    with True show ?thesis by (simp add: map_of_dict_set)
  next
    case False
    from load_entry_line_other [OF pl False assms(4)]
    have "map_of (load_line d0 (entry_line (s, v) @ [LF])) key = map_of d0 key" .
    moreover from False e have "(key, ''n'') \<in> set (e # es) \<Longrightarrow> (key, ''n'') \<in> set es" by auto
    ultimately show ?thesis using Cons.prems(2) by auto
  qed
  from Cons.IH [OF sub this] show ?case by (simp add: e)
qed

lemma takeWhile_until: "c \<notin> set a \<Longrightarrow> takeWhile (\<lambda>x. x \<noteq> c) (a @ c # r) = a"
  by (induction a) auto

lemma entry_line_not_literal_n:
  assumes "CHR ''='' \<notin> set key"
  shows "entry_line (s, v) \<noteq> ''CONFIG_'' @ key @ ''=n''"
proof
  assume eq: "entry_line (s, v) = ''CONFIG_'' @ key @ ''=n''"
  show False
  proof (cases "v = ''n''")
    case True
    with eq show False by (simp add: entry_line_def)
  next
    case False
    with eq have 1: "s @ CHR ''='' # v = key @ CHR ''='' # ''n''" by (simp add: entry_line_def)
    have "s = key \<and> v = ''n''"
    proof (cases "CHR ''='' \<in> set s")
      case False
      from 1 have "takeWhile (\<lambda>c. c \<noteq> CHR ''='') (s @ CHR ''='' # v) =
          takeWhile (\<lambda>c. c \<noteq> CHR ''='') (key @ CHR ''='' # ''n'')" by simp
      with False assms have "s = key" by (simp add: takeWhile_until)
      with 1 show ?thesis by simp
    next
      case True
      from split_list_first [OF True] obtain a r where s: "s = a @ CHR ''='' # r"
        and a: "CHR ''='' \<notin> set a" by blast
      from 1 have "takeWhile (\<lambda>c. c \<noteq> CHR ''='') (a @ CHR ''='' # (r @ CHR ''='' # v)) =
          takeWhile (\<lambda>c. c \<noteq> CHR ''='') (key @ CHR ''='' # ''n'')" by (simp add: s)
      with a assms have "a = key" by (simp add: takeWhile_until)
      with 1 s have "r @ CHR ''='' # v = ''n''" by simp
      then have "length (r @ CHR ''='' # v) = length ''n''" by (rule arg_cong)
      then have "r = [] \<and> v = []" by simp
      with \<open>r @ CHR ''='' # v = ''n''\<close> show ?thesis by simp
    qed
    with False show False by simp
  qed
qed

section \<open>Round trips through save and load\<close>

text \<open>
  Claim C1, as stated, fails: the mapping with the single pair \<^verbatim>\<open>A\<close>,
  \<^verbatim>\<open>b=c\<close> has distinct symbols and no value \<^verbatim>\<open>n\<close>; \<^verbatim>\<open>save\<close> writes the line
  \<^verbatim>\<open>CONFIG_A=b=c\<close>, and \<^verbatim>\<open>load\<close> of that file into a fresh instance records the
  symbol \<^verbatim>\<open>A=b\<close> with the value \<^verbatim>\<open>c\<close>, so the symbol \<^verbatim>\<open>A\<close> is lost.
\<close>

theorem save_load_roundtrip_counterexample:
  "distinct (map fst [(''A'', ''b=c'')]) \<and> ''b=c'' \<noteq> ''n'' \<and>
   save_text [(''A'', ''b=c'')] = DEFCONFIG_HEADER @ [LF] @ ''CONFIG_A=b=c'' @ [LF] \<and>
   save \<lparr>path = Some ''defconfig'', opts = [(''A'', ''b=c'')]\<rparr> None Map.empty =
     Inr (Map.empty(''defconfig'' \<mapsto> File (save_text [(''A'', ''b=c'')]))) \<and>
   load (Defconfig None) (Some ''defconfig'')
       (Map.empty(''defconfig'' \<mapsto> File (save_text [(''A'', ''b=c'')]))) =
     Inr (RetNone, \<lparr>path = None, opts = [(''A=b'', ''c'')]\<rparr>) \<and>
   map_of [(''A=b'', ''c'')] ''A'' = None \<and> map_of [(''A'', ''b=c'')] ''A'' = Some ''b=c''"
proof -
  have p: "plain_opts [(''A'', ''b=c'')]"
    by (simp add: plain_opts_def plain_text_def LF_def CR_def)
  have f: "file_lines (save_text [(''A'', ''b=c'')]) =
             map (\<lambda>l. l @ [LF]) header_lines @ [''CONFIG_A=b=c'' @ [LF]]"
    by (simp add: file_lines_save_text [OF p] entry_line_def)
  have l: "load_lines [] (file_lines (save_text [(''A'', ''b=c'')])) = [(''A=b'', ''c'')]"
    unfolding f load_lines_append load_header
    by (simp add: load_line_def is_not_set_def is_config_def line_body_def starts_with_def LF_def)
  have s: "save_text [(''A'', ''b=c'')] = DEFCONFIG_HEADER @ [LF] @ ''CONFIG_A=b=c'' @ [LF]"
    by (simp add: save_text_def)
  have w: "save \<lparr>path = Some ''defconfig'', opts = [(''A'', ''b=c'')]\<rparr> None Map.empty =
     Inr (Map.empty(''defconfig'' \<mapsto> File (save_text [(''A'', ''b=c'')])))"
    by (simp add: save_def write_file_def resolve_path_def)
  have r: "load (Defconfig None) (Some ''defconfig'')
       (Map.empty(''defconfig'' \<mapsto> File (save_text [(''A'', ''b=c'')]))) =
     Inr (RetNone, \<lparr>path = None, opts = [(''A=b'', ''c'')]\<rparr>)"
    by (simp add: load_def run_lines_eq resolve_path_def Defconfig_def l)
  show ?thesis
    by (intro conjI s w r) simp_all
qed

text \<open>
  Claim C1, amended. When the symbols are distinct, no symbol and no value contains a
  line break, and no value contains \<^verbatim>\<open>=\<close>, then \<^verbatim>\<open>save\<close> to a file followed by
  \<^verbatim>\<open>load\<close> of that file into a fresh instance returns normally and yields the same
  mapping. Values \<^verbatim>\<open>n\<close> need not be excluded.
\<close>

theorem save_load_roundtrip_safe:
  assumes "roundtrip_safe (opts self)"
    and "resolve_path self p = Some q" and "fs q \<noteq> Some Dir"
  shows "\<exists>fs' loaded.
           save self p fs = Inr fs' \<and>
           load (Defconfig r) (Some q) fs' = Inr (RetNone, loaded) \<and>
           map_of (opts loaded) = map_of (opts self) \<and>
           distinct (map fst (opts loaded))"
proof -
  let ?fs = "fs(q \<mapsto> File (save_text (opts self)))"
  let ?d = "load_lines [] (file_lines (save_text (opts self)))"
  have 1: "save self p fs = Inr ?fs"
    using assms(2,3) by (simp add: save_def write_file_ok)
  have 2: "load (Defconfig r) (Some q) ?fs = Inr (RetNone, \<lparr>path = r, opts = ?d\<rparr>)"
    by (simp add: load_def run_lines_eq resolve_path_def Defconfig_def)
  have 3: "map_of (opts \<lparr>path = r, opts = ?d\<rparr>) = map_of (opts self)"
    using load_of_saved_text [OF assms(1)] by simp
  have 4: "distinct (map fst (opts \<lparr>path = r, opts = ?d\<rparr>))"
    using distinct_load_lines [of "[]" "file_lines (save_text (opts self))"] by simp
  from 1 2 3 4 show ?thesis by blast
qed

theorem save_load_roundtrip_safe_witness:
  "roundtrip_safe [(''USBDEV'', ''y''), (''BOARD'', ''spresense'')] \<and>
   (\<exists>fs' loaded.
      save \<lparr>path = Some ''defconfig'', opts = [(''USBDEV'', ''y''), (''BOARD'', ''spresense'')]\<rparr>
        None Map.empty = Inr fs' \<and>
      load (Defconfig None) (Some ''defconfig'') fs' = Inr (RetNone, loaded) \<and>
      map_of (opts loaded) = map_of [(''USBDEV'', ''y''), (''BOARD'', ''spresense'')] \<and>
      distinct (map fst (opts loaded)))"
  using save_load_roundtrip_safe
    [of "\<lparr>path = Some ''defconfig'', opts = [(''USBDEV'', ''y''), (''BOARD'', ''spresense'')]\<rparr>"
      None "''defconfig''" Map.empty None]
  by (simp add: roundtrip_safe_def plain_opts_def plain_text_def LF_def CR_def resolve_path_def)

text \<open>
  Claim C9, as stated, fails: in the mapping with the pairs \<^verbatim>\<open>X=1\<close>, \<^verbatim>\<open>n\<close> and
  \<^verbatim>\<open>X\<close>, \<^verbatim>\<open>1=y\<close> the symbol \<^verbatim>\<open>X=1\<close> has the value \<^verbatim>\<open>n\<close>; \<^verbatim>\<open>save\<close> writes
  \<^verbatim>\<open># CONFIG_X=1 is not set\<close> and then \<^verbatim>\<open>CONFIG_X=1=y\<close>, and on \<^verbatim>\<open>load\<close> the
  second line overwrites what the first recorded: \<^verbatim>\<open>X=1\<close> ends with the value
  \<^verbatim>\<open>y\<close>.
\<close>

theorem disabled_marker_counterexample:
  "map_of [(''X=1'', ''n''), (''X'', ''1=y'')] ''X=1'' = Some ''n'' \<and>
   save_text [(''X=1'', ''n''), (''X'', ''1=y'')] =
     DEFCONFIG_HEADER @ [LF] @ ''# CONFIG_X=1 is not set'' @ [LF] @ ''CONFIG_X=1=y'' @ [LF] \<and>
   save \<lparr>path = Some ''defconfig'', opts = [(''X=1'', ''n''), (''X'', ''1=y'')]\<rparr> None Map.empty =
     Inr (Map.empty(''defconfig'' \<mapsto> File (save_text [(''X=1'', ''n''), (''X'', ''1=y'')]))) \<and>
   load (Defconfig None) (Some ''defconfig'')
       (Map.empty(''defconfig'' \<mapsto> File (save_text [(''X=1'', ''n''), (''X'', ''1=y'')]))) =
     Inr (RetNone, \<lparr>path = None, opts = [(''X=1'', ''y'')]\<rparr>)"
proof -
  have p: "plain_opts [(''X=1'', ''n''), (''X'', ''1=y'')]"
    by (simp add: plain_opts_def plain_text_def LF_def CR_def)
  have f: "file_lines (save_text [(''X=1'', ''n''), (''X'', ''1=y'')]) =
             map (\<lambda>l. l @ [LF]) header_lines @
             [''# CONFIG_X=1 is not set'' @ [LF], ''CONFIG_X=1=y'' @ [LF]]"
    by (simp add: file_lines_save_text [OF p] entry_line_def)
  have l: "load_lines [] (file_lines (save_text [(''X=1'', ''n''), (''X'', ''1=y'')])) =
             [(''X=1'', ''y'')]"
    unfolding f load_lines_append load_header
    by (simp add: load_line_def is_not_set_def is_config_def line_body_def starts_with_def LF_def)
  have s: "save_text [(''X=1'', ''n''), (''X'', ''1=y'')] =
     DEFCONFIG_HEADER @ [LF] @ ''# CONFIG_X=1 is not set'' @ [LF] @ ''CONFIG_X=1=y'' @ [LF]"
    by (simp add: save_text_def)
  have w: "save \<lparr>path = Some ''defconfig'', opts = [(''X=1'', ''n''), (''X'', ''1=y'')]\<rparr> None Map.empty =
     Inr (Map.empty(''defconfig'' \<mapsto> File (save_text [(''X=1'', ''n''), (''X'', ''1=y'')])))"
    by (simp add: save_def write_file_def resolve_path_def)
  have r: "load (Defconfig None) (Some ''defconfig'')
       (Map.empty(''defconfig'' \<mapsto> File (save_text [(''X=1'', ''n''), (''X'', ''1=y'')]))) =
     Inr (RetNone, \<lparr>path = None, opts = [(''X=1'', ''y'')]\<rparr>)"
    by (simp add: load_def run_lines_eq resolve_path_def Defconfig_def l)
  show ?thesis
    by (intro conjI s w r) simp
qed

text \<open>
  Claim C9, amended. When the symbols are distinct and no symbol and no value contains
  a line break, a symbol without \<^verbatim>\<open>=\<close> that has the value \<^verbatim>\<open>n\<close> has the value
  \<^verbatim>\<open>n\<close> again after \<^verbatim>\<open>save\<close> and \<^verbatim>\<open>load\<close> into a fresh instance; among the
  lines that \<^verbatim>\<open>save\<close> formats there is \<^verbatim>\<open># CONFIG_SYMBOL is not set\<close> and there is
  no \<^verbatim>\<open>CONFIG_SYMBOL=n\<close>. The other values may contain \<^verbatim>\<open>=\<close>.
\<close>

theorem disabled_marker_roundtrip:
  assumes "distinct (map fst (opts self))" and "plain_opts (opts self)"
    and "(symbol, ''n'') \<in> set (opts self)" and "CHR ''='' \<notin> set symbol"
    and "resolve_path self p = Some q" and "fs q \<noteq> Some Dir"
  shows "(\<exists>fs' loaded.
            save self p fs = Inr fs' \<and>
            load (Defconfig r) (Some q) fs' = Inr (RetNone, loaded) \<and>
            map_of (opts loaded) symbol = Some ''n'') \<and>
         ''# CONFIG_'' @ symbol @ '' is not set'' \<in> set (save_config [] (sort (opts self))) \<and>
         ''CONFIG_'' @ symbol @ ''=n'' \<notin> set (save_config [] (sort (opts self)))"
proof (intro conjI)
  let ?fs = "fs(q \<mapsto> File (save_text (opts self)))"
  let ?d = "load_lines [] (file_lines (save_text (opts self)))"
  from assms(3) have ne: "opts self \<noteq> []" by auto
  from load_saved_entries [OF assms(2) ne] obtain es
    where m: "mset es = mset (opts self)"
      and l: "?d = load_lines [] (map (\<lambda>e. entry_line e @ [LF]) es)"
    by blast
  from m have s: "set es = set (opts self)" by (rule mset_eq_setD)
  have sub: "set es \<subseteq> set (opts self)" unfolding s by (rule subset_refl)
  from assms(3) s have "map_of [] symbol = Some ''n'' \<or> (symbol, ''n'') \<in> set es" by simp
  from load_lines_keeps_disabled [OF assms(1,2,3,4) sub this]
  have 3: "map_of (opts \<lparr>path = r, opts = ?d\<rparr>) symbol = Some ''n''"
    unfolding l by simp
  have 1: "save self p fs = Inr ?fs"
    using assms(5,6) by (simp add: save_def write_file_ok)
  have 2: "load (Defconfig r) (Some q) ?fs = Inr (RetNone, \<lparr>path = r, opts = ?d\<rparr>)"
    by (simp add: load_def run_lines_eq resolve_path_def Defconfig_def)
  from 1 2 3 show "\<exists>fs' loaded.
            save self p fs = Inr fs' \<and>
            load (Defconfig r) (Some q) fs' = Inr (RetNone, loaded) \<and>
            map_of (opts loaded) symbol = Some ''n''" by blast
next
  have "entry_line (symbol, ''n'') \<in> entry_line ` set (opts self)"
    using assms(3) by (rule imageI)
  then show "''# CONFIG_'' @ symbol @ '' is not set'' \<in> set (save_config [] (sort (opts self)))"
    by (simp add: save_config_entry_lines entry_line_def)
next
  show "''CONFIG_'' @ symbol @ ''=n'' \<notin> set (save_config [] (sort (opts self)))"
  proof
    assume "''CONFIG_'' @ symbol @ ''=n'' \<in> set (save_config [] (sort (opts self)))"
    then obtain e where "entry_line e = ''CONFIG_'' @ symbol @ ''=n''"
      by (auto simp: save_config_entry_lines)
    with entry_line_not_literal_n [OF assms(4), of "fst e" "snd e"] show False by simp
  qed
qed

theorem disabled_marker_roundtrip_witness:
  "distinct (map fst [(''USBDEV'', ''n''), (''CMDLINE'', ''console=tty'')]) \<and>
   plain_opts [(''USBDEV'', ''n''), (''CMDLINE'', ''console=tty'')] \<and>
   (''USBDEV'', ''n'') \<in> set [(''USBDEV'', ''n''), (''CMDLINE'', ''console=tty'')] \<and>
   CHR ''='' \<notin> set ''USBDEV'' \<and>
   (\<exists>fs' loaded.
      save \<lparr>path = Some ''defconfig'', opts = [(''USBDEV'', ''n''), (''CMDLINE'', ''console=tty'')]\<rparr>
        None Map.empty = Inr fs' \<and>
      load (Defconfig None) (Some ''defconfig'') fs' = Inr (RetNone, loaded) \<and>
      map_of (opts loaded) ''USBDEV'' = Some ''n'') \<and>
   save_config [] (sort [(''USBDEV'', ''n''), (''CMDLINE'', ''console=tty'')]) =
     [''CONFIG_CMDLINE=console=tty'', ''# CONFIG_USBDEV is not set'']"
  using disabled_marker_roundtrip
    [of "\<lparr>path = Some ''defconfig'', opts = [(''USBDEV'', ''n''), (''CMDLINE'', ''console=tty'')]\<rparr>"
      "''USBDEV''" None "''defconfig''" Map.empty None]
  by (simp add: plain_opts_def plain_text_def LF_def CR_def resolve_path_def)

end
